theory Spec2Isabelle
  imports Complex_Main
begin

section \<open>The PWM HAT colour LED actuator (i2c/pwm.py)\<close>

text \<open>
  A shallow embedding of \<^verbatim>\<open>src/i2c/pwm.py\<close>. Python's unbounded integers are
  \<open>int\<close>. Python's floats (seconds, and the quotient inside \<^verbatim>\<open>scale_color_val\<close>)
  are idealised as \<open>real\<close>: the arithmetic is exact, where the interpreter rounds to
  binary64.
\<close>

subsection \<open>Pure helpers\<close>

text \<open>
  \<^verbatim>\<open>scale_color_val\<close> (lines 38-43): \<^verbatim>\<open>val = abs(value) / 100\<close> is a true division,
  \<^verbatim>\<open>int(val * 0xffff)\<close> truncates toward zero, which on a non-negative number is
  the floor. The quotient and the product are exact here. The interpreter
  computes them in binary64, with the same result for every \<open>v\<close> with
  \<open>\<bar>v\<bar> < 3276820\<close>; at 3276820 it returns 2147463986 where the exact
  value is 2147463987, and for an integer too large for a float the division
  raises. The properties below are stated inside that bound.
\<close>

definition scale_color_val :: "int \<Rightarrow> int" where
  "scale_color_val v = (let val = \<bar>real_of_int v\<bar> / 100 in \<lfloor>val * 65535\<rfloor>)"

text \<open>
  The specification's wording of the same function: rounding to the nearest
  integer instead of truncating.
\<close>

definition spec_scale :: "int \<Rightarrow> int" where
  "spec_scale v = round (\<bar>real_of_int v\<bar> / 100 * 65535)"

text \<open>\<^verbatim>\<open>take_radial_step\<close> (lines 45-67), branch by branch.\<close>

definition take_radial_step :: "int \<Rightarrow> int \<Rightarrow> int \<Rightarrow> int" where
  "take_radial_step current_angle target_angle step =
     (let diff = target_angle - current_angle in
      if \<bar>diff\<bar> \<le> step \<or> 360 - \<bar>diff\<bar> \<le> step then target_angle
      else
        let sign = (if \<bar>diff\<bar> > 180 then (if diff > 0 then - 1 else 1)
                    else (if diff > 0 then 1 else - 1));
            new = current_angle + sign * step
        in if new < 0 then 360 + new
           else if new \<ge> 360 then new - 360
           else new)"

text \<open>The circular distance of two angles, as the specification writes it.\<close>

definition circular_distance :: "int \<Rightarrow> int \<Rightarrow> int" where
  "circular_distance c t = min \<bar>t - c\<bar> (360 - \<bar>t - c\<bar>)"

text \<open>Feeding the result of \<open>take_radial_step\<close> back as the current angle, \<open>n\<close> times.\<close>

fun radial_iter :: "nat \<Rightarrow> int \<Rightarrow> int \<Rightarrow> int \<Rightarrow> int" where
  "radial_iter 0 c t s = c"
| "radial_iter (Suc n) c t s = radial_iter n (take_radial_step c t s) t s"

subsection \<open>The colour value\<close>

text \<open>
  Modelled from the spec: the class \<^verbatim>\<open>utils.ColorHSV\<close> is imported from \<^verbatim>\<open>core/utils.py\<close>,
  which is not among the sources. The specification's data model gives it the
  three HSV components (hue an angle in \<open>[0,360)\<close>, saturation and value
  percentages), a flag for a configured white channel, structural equality on
  the HSV components, independent copies, and a \<open>set\<close> that wraps the hue
  modulo 360 and stores saturation and value as given. The keys of
  \<^verbatim>\<open>hsv_dict\<close> are the constants \<^verbatim>\<open>C_HUE\<close>, \<^verbatim>\<open>C_SAT\<close>, \<^verbatim>\<open>C_VAL\<close>.
\<close>

datatype hsv_param = C_HUE | C_SAT | C_VAL

record ColorHSV =
  c_hue :: int
  c_sat :: int
  c_val :: int
  white_channel :: bool

definition get_hsv :: "ColorHSV \<Rightarrow> hsv_param \<Rightarrow> int" where
  "get_hsv c p = (case p of C_HUE \<Rightarrow> c_hue c | C_SAT \<Rightarrow> c_sat c | C_VAL \<Rightarrow> c_val c)"

definition set_hsv :: "ColorHSV \<Rightarrow> hsv_param \<Rightarrow> int \<Rightarrow> ColorHSV" where
  "set_hsv c p v =
     (case p of C_HUE \<Rightarrow> c\<lparr>c_hue := v mod 360\<rparr>
              | C_SAT \<Rightarrow> c\<lparr>c_sat := v\<rparr>
              | C_VAL \<Rightarrow> c\<lparr>c_val := v\<rparr>)"

definition hsv_items :: "ColorHSV \<Rightarrow> (hsv_param \<times> int) list" where
  "hsv_items c = [(C_HUE, c_hue c), (C_SAT, c_sat c), (C_VAL, c_val c)]"

definition color_eq :: "ColorHSV \<Rightarrow> ColorHSV \<Rightarrow> bool" where
  "color_eq a b \<longleftrightarrow> c_hue a = c_hue b \<and> c_sat a = c_sat b \<and> c_val a = c_val b"

text \<open>The data-model invariant on the hue.\<close>

definition hue_ok :: "ColorHSV \<Rightarrow> bool" where
  "hue_ok c \<longleftrightarrow> 0 \<le> c_hue c \<and> c_hue c < 360"

subsection \<open>The background activity\<close>

text \<open>
  What the program does to the outside, in the order it does it: sleeping,
  calling the hardware callback \<^verbatim>\<open>set_pwm\<close> (with the colour as it is at the
  call), writing the two shared flags, joining and starting a thread, logging
  and publishing.
\<close>

datatype event =
    Sleep real
  | SetPwm ColorHSV
  | SetStopThread bool
  | SetInProgress bool
  | Join "real option"
  | StartThread real real ColorHSV
  | LogDebug
  | LogInfo
  | LogWarning
  | PublishVal int
  | PublishHSV ColorHSV

text \<open>
  The state of one run of \<^verbatim>\<open>_smooth_dimmer\<close>: the object \<^verbatim>\<open>current_value\<close> it
  mutates, its \<^verbatim>\<open>target_value\<close> (mutated by the bidirectional flip), how often
  it has slept, and what it has done so far.
\<close>

record activity =
  live :: ColorHSV
  target :: ColorHSV
  sleeps :: nat
  trace :: "event list"

text \<open>
  The flag \<^verbatim>\<open>self._stop_thread\<close> is written by the command thread. The activity
  reads it in its loop conditions only; \<open>stop n\<close> is the value it reads after
  \<open>n\<close> calls of \<^verbatim>\<open>sleep\<close>.
\<close>

type_synonym stop_flag = "nat \<Rightarrow> bool"

text \<open>The body of the \<^verbatim>\<open>for\<close> loop over \<^verbatim>\<open>target_value.hsv_dict.items()\<close> (lines 219-232).\<close>

definition step_param :: "ColorHSV \<Rightarrow> ColorHSV \<Rightarrow> hsv_param \<times> int \<Rightarrow> ColorHSV" where
  "step_param target_value current_value item =
     (case item of (param, tgt) \<Rightarrow>
        if param = C_HUE then
          (let curr_hue = get_hsv current_value C_HUE;
               target_hue = get_hsv target_value C_HUE
           in set_hsv current_value C_HUE (take_radial_step curr_hue target_hue 5))
        else if \<bar>get_hsv current_value param - tgt\<bar> < 5 then
          set_hsv current_value param tgt
        else if get_hsv current_value param < tgt then
          set_hsv current_value param (get_hsv current_value param + 5)
        else
          set_hsv current_value param (get_hsv current_value param - 5))"

text \<open>The whole \<^verbatim>\<open>for\<close> loop: every component of the target, in the order of the dictionary.\<close>

definition step_color :: "ColorHSV \<Rightarrow> ColorHSV \<Rightarrow> ColorHSV" where
  "step_color target_value current_value =
     foldl (step_param target_value) current_value (hsv_items target_value)"

text \<open>
  The exceptions that end a call: \<^verbatim>\<open>time.sleep\<close> raises \<^verbatim>\<open>ValueError\<close> for a
  negative argument, the setter of \<^verbatim>\<open>color_hsv_str\<close> fails on malformed text.
\<close>

datatype error = FormatError | ValueError

text \<open>
  One completed pass of the \<^verbatim>\<open>while\<close> loop (lines 218-239). A pass starts with
  \<^verbatim>\<open>sleep(interval_time)\<close>, which returns only for an interval that is not
  negative; the loop below enters a pass only then.
\<close>

definition tick :: "real \<Rightarrow> real \<Rightarrow> activity \<Rightarrow> activity" where
  "tick start_delay interval_time a =
     (let current_value = step_color (target a) (live a);
          target_value =
            (if start_delay \<noteq> 0 \<and> get_hsv current_value C_VAL = 0
                \<and> get_hsv (target a) C_VAL = 0
             then set_hsv (target a) C_VAL 100 else target a)
      in \<lparr>live = current_value, target = target_value, sleeps = Suc (sleeps a),
          trace = trace a @ [Sleep interval_time, SetPwm current_value]\<rparr>)"

text \<open>
  The \<^verbatim>\<open>while\<close> loop (line 217). It need not end, so not returning is \<open>None\<close>.
  With a negative interval the first \<^verbatim>\<open>sleep\<close> raises: the thread ends there,
  before any step or call of the callback.
\<close>

partial_function (option) dimmer_loop ::
  "real \<Rightarrow> real \<Rightarrow> stop_flag \<Rightarrow> activity \<Rightarrow> (error + activity) option" where
  "dimmer_loop start_delay interval_time stop a =
     (if \<not> color_eq (live a) (target a) \<and> \<not> stop (sleeps a)
      then (if interval_time < 0 then Some (Inl ValueError)
            else dimmer_loop start_delay interval_time stop (tick start_delay interval_time a))
      else Some (Inr a))"

text \<open>
  The interruptible start delay (lines 206-210); the result is the number of
  100 ms slices slept. The sum \<^verbatim>\<open>waited += 0.1\<close> is exact here; in binary64
  the count can be one more (9 slices for a delay of 0.8, where this gives 8).
  Nothing below depends on the count.
\<close>

function wait_delay :: "real \<Rightarrow> real \<Rightarrow> stop_flag \<Rightarrow> nat \<Rightarrow> nat" where
  "wait_delay waited start_delay stop k =
     (if waited < start_delay \<and> \<not> stop k
      then wait_delay (waited + 1 / 10) start_delay stop (Suc k)
      else k)"
  by pat_completeness auto
termination
proof (relation "measure (\<lambda>(waited, start_delay, stop, k). nat \<lceil>(start_delay - waited) * 10\<rceil>)")
  show "wf (measure (\<lambda>(waited, start_delay, stop, k). nat \<lceil>(start_delay - waited) * 10\<rceil>))"
    by simp
next
  fix waited start_delay :: real and stop :: stop_flag and k :: nat
  assume "waited < start_delay \<and> \<not> stop k"
  then have pos: "0 < (start_delay - waited) * 10" by simp
  have "\<lceil>(start_delay - (waited + 1 / 10)) * 10\<rceil> = \<lceil>(start_delay - waited) * 10 - 1\<rceil>"
    by (simp add: algebra_simps)
  also have "\<dots> = \<lceil>(start_delay - waited) * 10\<rceil> - 1" by simp
  finally have "\<lceil>(start_delay - (waited + 1 / 10)) * 10\<rceil> < \<lceil>(start_delay - waited) * 10\<rceil>"
    by simp
  moreover have "0 < \<lceil>(start_delay - waited) * 10\<rceil>" using pos by (simp add: less_ceiling_iff)
  ultimately show "((waited + 1 / 10, start_delay, stop, Suc k), (waited, start_delay, stop, k))
        \<in> measure (\<lambda>(waited, start_delay, stop, k). nat \<lceil>(start_delay - waited) * 10\<rceil>)"
    by simp
qed

declare wait_delay.simps [simp del]

text \<open>
  \<^verbatim>\<open>_smooth_dimmer\<close> (lines 188-241), started on the object \<open>current\<close> that
  \<^verbatim>\<open>self.caller.state.current\<close> refers to when the delay is over. The last
  line, which clears \<^verbatim>\<open>smooth_change.in_progress\<close>, is reached only when the loop
  returns.
\<close>

definition smooth_dimmer ::
  "real \<Rightarrow> real \<Rightarrow> ColorHSV \<Rightarrow> stop_flag \<Rightarrow> ColorHSV \<Rightarrow> (error + activity) option" where
  "smooth_dimmer start_delay interval_time target_value stop current =
     (let k = wait_delay 0 start_delay stop 0 in
      case dimmer_loop start_delay interval_time stop
             \<lparr>live = current, target = target_value, sleeps = k,
              trace = replicate k (Sleep (1 / 10))\<rparr> of
        None \<Rightarrow> None
      | Some (Inl e) \<Rightarrow> Some (Inl e)
      | Some (Inr a) \<Rightarrow> Some (Inr (a\<lparr>trace := trace a @ [SetInProgress False]\<rparr>)))"

text \<open>The condition that ends the \<^verbatim>\<open>while\<close> loop: target reached, or stop flag read as set.\<close>

definition finished :: "stop_flag \<Rightarrow> activity \<Rightarrow> bool" where
  "finished stop a \<longleftrightarrow> color_eq (live a) (target a) \<or> stop (sleeps a)"

text \<open>The colours handed to the hardware callback, in order.\<close>

fun pwm_calls :: "event list \<Rightarrow> ColorHSV list" where
  "pwm_calls [] = []"
| "pwm_calls (SetPwm c # es) = c # pwm_calls es"
| "pwm_calls (e # es) = pwm_calls es"

text \<open>
  Two notions for reasoning about the loop: the move of one saturation or value
  component in one pass (lines 226-232 on plain integers), and a quantity that
  every pass decreases: the remaining distance to the target, counting the
  pending bidirectional flip of a manual dimming as more than a full ramp.
\<close>

definition linear_step :: "int \<Rightarrow> int \<Rightarrow> int" where
  "linear_step x t = (if \<bar>x - t\<bar> < 5 then t else if x < t then x + 5 else x - 5)"

definition remaining :: "real \<Rightarrow> activity \<Rightarrow> int" where
  "remaining start_delay a =
     circular_distance (c_hue (live a)) (c_hue (target a))
     + \<bar>c_sat (live a) - c_sat (target a)\<bar>
     + (if start_delay \<noteq> 0 \<and> c_val (target a) = 0 then \<bar>c_val (live a)\<bar> + 101
        else \<bar>c_val (live a) - c_val (target a)\<bar>)"

text \<open>The distance of two colours: the sum of the distances of their components.\<close>

definition color_distance :: "ColorHSV \<Rightarrow> ColorHSV \<Rightarrow> int" where
  "color_distance c t =
     circular_distance (c_hue c) (c_hue t) + \<bar>c_sat c - c_sat t\<bar> + \<bar>c_val c - c_val t\<bar>"

text \<open>
  What holds of the brightness at every pass of a manual dimming: the target is
  100, or it is 0 and the live brightness is not.
\<close>

definition val_inv :: "activity \<Rightarrow> bool" where
  "val_inv a \<longleftrightarrow> c_val (target a) = 100 \<or> (c_val (target a) = 0 \<and> c_val (live a) \<noteq> 0)"

subsection \<open>The dimmer and the actuator\<close>

text \<open>
  The arguments a thread is created with (line 182): \<^verbatim>\<open>start_delay\<close>,
  \<^verbatim>\<open>interval_time\<close>, \<^verbatim>\<open>target_value\<close>.
\<close>

record thread_args =
  t_start_delay :: real
  t_interval_time :: real
  t_target_value :: ColorHSV

text \<open>
  The attributes of \<^verbatim>\<open>_SmoothDimmer\<close> (lines 96-107). \<^verbatim>\<open>dimming.state_before\<close>
  starts as the integer 0, which is \<open>None\<close> here; \<^verbatim>\<open>_thread\<close> is \<open>None\<close>
  until a thread has been created.
\<close>

record SmoothDimmer =
  dimming_interval :: real
  dimming_delay :: real
  dimming_state_before :: "ColorHSV option"
  smooth_change_interval :: real
  smooth_change_in_progress :: bool
  thread :: "thread_args option"
  stop_thread :: bool

text \<open>
  The dimmer and its caller refer to each other, so they are one state:
  \<^verbatim>\<open>state.current\<close>, \<^verbatim>\<open>state.last\<close>, the number of configured PWM channels
  (\<^verbatim>\<open>len(self.pwm)\<close>), the dimmer, and everything done to the outside so far.
  Colours are values here; the activity's writes to the object
  \<^verbatim>\<open>state.current\<close> reach this state only where a join hands them over.
\<close>

record actuator =
  state_current :: ColorHSV
  state_last :: ColorHSV
  pwm_channels :: nat
  dimmer :: SmoothDimmer
  effects :: "event list"

text \<open>
  The attributes \<^verbatim>\<open>__init__\<close> sets (lines 99-107 and 294-299) when the
  configuration names no intervals: the defaults 0.2, 0.5 and 0.05, the last
  state the initial colour at full brightness. The record of effects starts
  empty here, after the initial publish.
\<close>

definition init_actuator :: "ColorHSV \<Rightarrow> nat \<Rightarrow> actuator" where
  "init_actuator c n =
     \<lparr>state_current = c, state_last = set_hsv c C_VAL 100, pwm_channels = n,
      dimmer = \<lparr>dimming_interval = 2 / 10, dimming_delay = 5 / 10,
                dimming_state_before = None, smooth_change_interval = 5 / 100,
                smooth_change_in_progress = False, thread = None, stop_thread = False\<rparr>,
      effects = []\<rparr>"

definition emit :: "event list \<Rightarrow> actuator \<Rightarrow> actuator" where
  "emit es a = a\<lparr>effects := effects a @ es\<rparr>"

text \<open>
  \<^verbatim>\<open>_start_thread\<close> (lines 168-186). The join has no timeout: it returns when
  the earlier activity has ended. What that activity writes until then (the
  colour it steps, and \<^verbatim>\<open>in_progress = False\<close> as its last line) is not put into
  this record: after a call that joins a running thread, the field
  \<open>smooth_change_in_progress\<close> and \<open>state_current\<close> say what the command
  thread wrote, not what the joined thread left.
\<close>

definition start_thread :: "actuator \<Rightarrow> real \<Rightarrow> real \<Rightarrow> ColorHSV \<Rightarrow> actuator" where
  "start_thread a start_delay interval_time v =
     (let a1 = (if thread (dimmer a) \<noteq> None then emit [Join None] a else a);
          a2 = emit [SetStopThread False] (a1\<lparr>dimmer := (dimmer a1)\<lparr>stop_thread := False\<rparr>\<rparr>);
          th = \<lparr>t_start_delay = start_delay, t_interval_time = interval_time,
                t_target_value = v\<rparr>
      in emit [StartThread start_delay interval_time v]
           (a2\<lparr>dimmer := (dimmer a2)\<lparr>thread := Some th\<rparr>\<rparr>))"

text \<open>\<^verbatim>\<open>apply_value_change\<close> (lines 109-120).\<close>

definition apply_value_change :: "actuator \<Rightarrow> ColorHSV \<Rightarrow> actuator" where
  "apply_value_change a v =
     (if smooth_change_interval (dimmer a) \<noteq> 0 then
        (let a1 = emit [SetStopThread True] (a\<lparr>dimmer := (dimmer a)\<lparr>stop_thread := True\<rparr>\<rparr>);
             a2 = emit [SetInProgress True]
                    (a1\<lparr>dimmer := (dimmer a1)\<lparr>smooth_change_in_progress := True\<rparr>\<rparr>)
         in start_thread a2 0 (smooth_change_interval (dimmer a2)) v)
      else emit [SetPwm v] a)"

text \<open>\<^verbatim>\<open>start_dimming\<close> (lines 122-139). A brightness is true in Python when it is not 0.\<close>

definition start_dimming :: "actuator \<Rightarrow> actuator" where
  "start_dimming a =
     (if \<not> smooth_change_in_progress (dimmer a) then
        (let a1 = a\<lparr>dimmer := (dimmer a)\<lparr>dimming_state_before := Some (state_current a)\<rparr>\<rparr>;
             new_color = state_current a1;
             new_color = (if get_hsv new_color C_VAL \<noteq> 0 then set_hsv new_color C_VAL 0
                          else set_hsv new_color C_VAL 100)
         in start_thread a1 (dimming_delay (dimmer a1)) (dimming_interval (dimmer a1)) new_color)
      else a)"

text \<open>
  What \<^verbatim>\<open>join(timeout=0.2)\<close> followed by \<^verbatim>\<open>is_alive()\<close> finds: the thread has
  ended, and \<^verbatim>\<open>state.current\<close> then holds the given colour, or it is still
  running.
\<close>

datatype join_result = Ended ColorHSV | StillAlive

text \<open>
  \<^verbatim>\<open>state_before != current\<close> (line 159): a snapshot differs from a colour when
  the colours are not equal; the initial 0 is no colour.
\<close>

definition differs :: "ColorHSV option \<Rightarrow> ColorHSV \<Rightarrow> bool" where
  "differs before c = (case before of None \<Rightarrow> True | Some b \<Rightarrow> \<not> color_eq b c)"

text \<open>\<^verbatim>\<open>stop_dimming\<close> (lines 141-166).\<close>

definition stop_dimming :: "actuator \<Rightarrow> join_result \<Rightarrow> bool \<times> actuator" where
  "stop_dimming a joined =
     (if \<not> smooth_change_in_progress (dimmer a) then
        (let a1 = emit [SetStopThread True] (a\<lparr>dimmer := (dimmer a)\<lparr>stop_thread := True\<rparr>\<rparr>)
         in case thread (dimmer a1) of
              None \<Rightarrow> (False, a1)
            | Some th \<Rightarrow>
                (let a2 = emit [Join (Some (2 / 10))] a1
                 in case joined of
                      Ended c \<Rightarrow>
                        (let a3 = a2\<lparr>state_current := c\<rparr>
                         in if differs (dimming_state_before (dimmer a3)) (state_current a3)
                            then (True, a3) else (False, a3))
                    | StillAlive \<Rightarrow> (False, emit [LogDebug] a2)))
      else (False, a))"

text \<open>
  The thread the dimmer holds, run to its end on the colour \<open>current\<close>, under
  the stop flag \<open>stop\<close>.
\<close>

definition run_thread ::
  "thread_args \<Rightarrow> stop_flag \<Rightarrow> ColorHSV \<Rightarrow> (error + activity) option" where
  "run_thread th stop current =
     smooth_dimmer (t_start_delay th) (t_interval_time th) (t_target_value th) stop current"

text \<open>
  A state in the middle of a manual dimming: the snapshot is taken and the
  thread has been started.
\<close>

definition dimming_actuator :: actuator where
  "dimming_actuator =
     (let a = init_actuator \<lparr>c_hue = 30, c_sat = 40, c_val = 60, white_channel = False\<rparr> 3
      in a\<lparr>dimmer := (dimmer a)
            \<lparr>dimming_state_before := Some \<lparr>c_hue = 30, c_sat = 40, c_val = 60, white_channel = False\<rparr>,
             thread := Some \<lparr>t_start_delay = 5 / 10, t_interval_time = 2 / 10,
                             t_target_value = \<lparr>c_hue = 30, c_sat = 40, c_val = 0, white_channel = False\<rparr>\<rparr>\<rparr>,
           effects := []\<rparr>)"

subsection \<open>The command handler\<close>

text \<open>
  The string tests of \<^verbatim>\<open>on_message\<close>: \<^verbatim>\<open>x in msg\<close>, \<^verbatim>\<open>msg.isdigit()\<close> and
  \<^verbatim>\<open>int(msg)\<close> on a string of decimal digits. Characters are bytes, and the
  digits are the ten ASCII digits; the digits of other scripts, which
  \<^verbatim>\<open>str.isdigit\<close> accepts too, are outside this type.
\<close>

fun str_in :: "string \<Rightarrow> string \<Rightarrow> bool" where
  "str_in sub [] = (sub = [])"
| "str_in sub (c # cs) = (take (length sub) (c # cs) = sub \<or> str_in sub cs)"

definition isdigit :: "string \<Rightarrow> bool" where
  "isdigit msg \<longleftrightarrow> msg \<noteq> [] \<and> list_all (\<lambda>c. c \<in> set ''0123456789'') msg"

definition int_of_str :: "string \<Rightarrow> int" where
  "int_of_str msg = foldl (\<lambda>n c. 10 * n + (int (of_char c) - 48)) 0 msg"

text \<open>
  What \<^verbatim>\<open>on_message\<close> takes from code that is not among the sources:
  \<^verbatim>\<open>utils.is_toggle_cmd\<close>, the answer of \<^verbatim>\<open>debounce.is_within_debounce_time()\<close>
  at this call, the setter of \<^verbatim>\<open>color_hsv_str\<close> (which parses \<^verbatim>\<open>h,s,v\<close> into
  the colour, \<open>None\<close> where it raises), and what the join inside
  \<^verbatim>\<open>stop_dimming\<close> finds.
\<close>

record collaborators =
  is_toggle_cmd :: "string \<Rightarrow> bool"
  within_debounce_time :: bool
  set_color_hsv_str :: "string \<Rightarrow> ColorHSV \<Rightarrow> ColorHSV option"
  joined :: join_result

text \<open>\<^verbatim>\<open>publish_actuator_state\<close> (lines 441-448).\<close>

definition publish_actuator_state :: "actuator \<Rightarrow> actuator" where
  "publish_actuator_state a =
     (if pwm_channels a = 1 then emit [PublishVal (get_hsv (state_current a) C_VAL)] a
      else emit [PublishHSV (state_current a)] a)"

text \<open>
  \<^verbatim>\<open>on_message\<close> in two parts. The first (lines 376-424) either finishes the
  command or leaves a candidate \<^verbatim>\<open>new_color\<close>; the second (lines 426-439)
  compares the candidate with the current colour and applies it.
\<close>

datatype dispatch = NewColor actuator ColorHSV | Handled actuator

definition dispatch_msg :: "collaborators \<Rightarrow> actuator \<Rightarrow> string \<Rightarrow> error + dispatch" where
  "dispatch_msg env a msg =
     (let new_color = state_current a in
      if str_in '','' msg \<and> \<not> str_in ''NaN'' msg then
        (case set_color_hsv_str env msg new_color of
           None \<Rightarrow> Inl FormatError
         | Some c \<Rightarrow> Inr (NewColor a c))
      else if isdigit msg then
        Inr (NewColor a (set_hsv new_color C_VAL (int_of_str msg)))
      else if msg = ''ON'' then
        Inr (NewColor a (set_hsv new_color C_VAL 100))
      else if msg = ''OFF'' then
        Inr (NewColor a (set_hsv new_color C_VAL 0))
      else if msg = ''DIM'' then
        Inr (Handled (start_dimming a))
      else if msg = ''STOP'' then
        (case stop_dimming a (joined env) of
           (val_changed, a') \<Rightarrow>
             Inr (Handled (if val_changed then publish_actuator_state (emit [LogInfo] a')
                           else a')))
      else if is_toggle_cmd env msg then
        (if within_debounce_time env then Inr (Handled (emit [LogInfo] a))
         else if get_hsv (state_current a) C_VAL > 0 then
           Inr (NewColor (a\<lparr>state_last := state_current a\<rparr>) (set_hsv new_color C_VAL 0))
         else Inr (NewColor a (state_last a)))
      else Inr (Handled (emit [LogWarning] a)))"

definition commit_color :: "actuator \<Rightarrow> ColorHSV \<Rightarrow> actuator" where
  "commit_color a new_color =
     (if color_eq (state_current a) new_color then emit [LogInfo] a
      else
        (let a1 = emit [LogInfo] a;
             a2 = apply_value_change a1 new_color;
             a3 = a2\<lparr>state_current := new_color\<rparr>
         in publish_actuator_state a3))"

definition on_message :: "collaborators \<Rightarrow> actuator \<Rightarrow> string \<Rightarrow> error + actuator" where
  "on_message env a msg =
     (case dispatch_msg env a msg of
        Inl e \<Rightarrow> Inl e
      | Inr (Handled a') \<Rightarrow> Inr a'
      | Inr (NewColor a' new_color) \<Rightarrow> Inr (commit_color a' new_color))"

text \<open>The effects that reach the hardware, start a transition or publish a state.\<close>

fun visible :: "event \<Rightarrow> bool" where
  "visible (SetPwm c) = True"
| "visible (StartThread d i c) = True"
| "visible (PublishVal v) = True"
| "visible (PublishHSV c) = True"
| "visible e = False"

section \<open>Properties of the pure helpers\<close>

lemma scale_color_val_div: "scale_color_val v = (\<bar>v\<bar> * 65535) div 100"
proof -
  have "\<bar>real_of_int v\<bar> / 100 * 65535 = real_of_int (\<bar>v\<bar> * 65535) / real_of_int 100"
    by simp
  then show ?thesis
    unfolding scale_color_val_def Let_def by (simp only: floor_divide_of_int_eq)
qed

lemma step_snap:
  "circular_distance c t \<le> s \<Longrightarrow> take_radial_step c t s = t"
  unfolding circular_distance_def take_radial_step_def Let_def
  by (simp add: min_le_iff_disj)

lemma step_far:
  assumes "s < circular_distance c t"
  shows "take_radial_step c t s =
     (let new = (if \<bar>t - c\<bar> > 180 then (if t - c > 0 then c - s else c + s)
                 else (if t - c > 0 then c + s else c - s))
      in if new < 0 then 360 + new else if new \<ge> 360 then new - 360 else new)"
proof -
  from assms have "\<not> (\<bar>t - c\<bar> \<le> s \<or> 360 - \<bar>t - c\<bar> \<le> s)"
    unfolding circular_distance_def by (simp add: min_le_iff_disj not_le)
  then show ?thesis
    unfolding take_radial_step_def Let_def by simp
qed

lemma step_far_props:
  assumes r: "0 \<le> c" "c < 360" "0 \<le> t" "t < 360"
    and far: "s < circular_distance c t" and s: "0 \<le> s"
  shows "0 \<le> take_radial_step c t s \<and> take_radial_step c t s < 360
       \<and> circular_distance c (take_radial_step c t s) = s
       \<and> circular_distance (take_radial_step c t s) t = circular_distance c t - s"
proof -
  from far have b: "s < \<bar>t - c\<bar>" "s < 360 - \<bar>t - c\<bar>"
    unfolding circular_distance_def by simp_all
  show ?thesis
  proof (cases "180 < \<bar>t - c\<bar>")
    case big: True
    show ?thesis
    proof (cases "0 < t - c")
      case True
      with big r b s show ?thesis
        unfolding step_far[OF far] Let_def circular_distance_def
        by (auto simp: min_def)
    next
      case False
      with big r b s show ?thesis
        unfolding step_far[OF far] Let_def circular_distance_def
        by (auto simp: min_def)
    qed
  next
    case small: False
    show ?thesis
    proof (cases "0 < t - c")
      case True
      with small r b s show ?thesis
        unfolding step_far[OF far] Let_def circular_distance_def
        by (auto simp: min_def)
    next
      case False
      with small r b s show ?thesis
        unfolding step_far[OF far] Let_def circular_distance_def
        by (auto simp: min_def)
    qed
  qed
qed

lemma wrap_mod:
  fixes x :: int
  assumes "- 360 \<le> x" "x < 720"
  shows "(if x < 0 then 360 + x else if 360 \<le> x then x - 360 else x) = x mod 360"
proof -
  have a: "x mod 360 = x + 360" if "x < 0"
  proof -
    have "(x + 360) mod 360 = x + 360"
      using that assms by (intro mod_pos_pos_trivial) simp_all
    then show ?thesis by simp
  qed
  have b: "x mod 360 = x - 360" if "360 \<le> x"
  proof -
    have "(x - 360) mod 360 = x - 360"
      using that assms by (intro mod_pos_pos_trivial) simp_all
    then show ?thesis by simp
  qed
  have c: "x mod 360 = x" if "0 \<le> x" "x < 360"
    using that by simp
  show ?thesis using a b c by (simp add: not_less not_le)
qed

lemma step_far_mod:
  assumes r: "0 \<le> c" "c < 360" "0 \<le> t" "t < 360"
    and far: "s < circular_distance c t" and s: "0 \<le> s"
  shows "take_radial_step c t s =
           (if 180 < \<bar>t - c\<bar> then c - sgn (t - c) * s else c + sgn (t - c) * s) mod 360"
proof -
  from far have b: "s < \<bar>t - c\<bar>" "s < 360 - \<bar>t - c\<bar>"
    unfolding circular_distance_def by simp_all
  let ?x = "if 180 < \<bar>t - c\<bar> then c - sgn (t - c) * s else c + sgn (t - c) * s"
  have x: "?x = (if \<bar>t - c\<bar> > 180 then (if t - c > 0 then c - s else c + s)
                 else (if t - c > 0 then c + s else c - s))"
    using b s by (auto simp: sgn_if)
  have "- 360 \<le> ?x" "?x < 720" using r b s unfolding x by (simp_all; linarith)+
  from wrap_mod[OF this] show ?thesis
    unfolding step_far[OF far] Let_def x by simp
qed

lemma circular_distance_zero:
  assumes "0 \<le> c" "c < 360" "0 \<le> t" "t < 360" "circular_distance c t \<le> 0"
  shows "c = t"
  using assms unfolding circular_distance_def by (auto simp: min_le_iff_disj)

lemma radial_iter_fixed: "0 \<le> s \<Longrightarrow> radial_iter n t t s = t"
  by (induction n) (simp_all add: step_snap circular_distance_def)

lemma radial_iter_reaches:
  assumes "0 \<le> t" "t < 360" "1 \<le> s"
  shows "0 \<le> c \<Longrightarrow> c < 360 \<Longrightarrow> circular_distance c t \<le> int n * s
         \<Longrightarrow> radial_iter n c t s = t"
proof (induction n arbitrary: c)
  case 0
  then have "c = t" using assms circular_distance_zero[of c t] by simp
  then show ?case by simp
next
  case (Suc n)
  show ?case
  proof (cases "circular_distance c t \<le> s")
    case True
    then show ?thesis using assms by (simp add: step_snap radial_iter_fixed)
  next
    case False
    then have far: "s < circular_distance c t" by simp
    have s0: "0 \<le> s" using assms by simp
    note p = step_far_props[OF Suc.prems(1,2) assms(1,2) far s0]
    have "circular_distance (take_radial_step c t s) t \<le> int n * s"
      using p Suc.prems(3) by (simp add: algebra_simps)
    with p Suc.IH[of "take_radial_step c t s"] show ?thesis by simp
  qed
qed

text \<open>
  Claim C4. For angles in \<open>[0,360)\<close> and a step of at least 1, \<open>take_radial_step\<close>
  returns the target exactly when the circular distance is at most the step;
  otherwise it returns the current angle moved by exactly the step along the
  shorter arc (against the sign of the difference when the difference exceeds
  180 in magnitude), so that the distance to the target shrinks by the step; the
  result is always in \<open>[0,360)\<close>.
\<close>

theorem take_radial_step_spec:
  assumes "0 \<le> c" "c < 360" "0 \<le> t" "t < 360" "1 \<le> s"
  shows "(take_radial_step c t s = t \<longleftrightarrow> circular_distance c t \<le> s)
       \<and> (s < circular_distance c t \<longrightarrow>
            take_radial_step c t s =
              (if 180 < \<bar>t - c\<bar> then c - sgn (t - c) * s else c + sgn (t - c) * s) mod 360
          \<and> circular_distance c (take_radial_step c t s) = s
          \<and> circular_distance (take_radial_step c t s) t = circular_distance c t - s)
       \<and> 0 \<le> take_radial_step c t s \<and> take_radial_step c t s < 360"
proof (cases "circular_distance c t \<le> s")
  case True
  then show ?thesis using assms by (simp add: step_snap)
next
  case False
  then have far: "s < circular_distance c t" by simp
  have s0: "0 \<le> s" using assms by simp
  note p = step_far_props[OF assms(1-4) far s0]
  note m = step_far_mod[OF assms(1-4) far s0]
  have "circular_distance t t = 0" by (simp add: circular_distance_def)
  with p far have "take_radial_step c t s \<noteq> t" by auto
  with p m far False show ?thesis by blast
qed

theorem take_radial_step_spec_witness:
  "take_radial_step 350 10 5 = 355 \<and> circular_distance 350 10 = 20
   \<and> circular_distance 355 10 = 15 \<and> take_radial_step 8 10 5 = 10"
  using take_radial_step_spec[of 350 10 5] take_radial_step_spec[of 8 10 5]
  by (simp add: circular_distance_def)

text \<open>
  Claim C5. For angles in \<open>[0,360)\<close> and a step of at least 1, feeding each
  result of \<open>take_radial_step\<close> back as the current angle reaches the target
  after \<open>ceil (circular_distance / step)\<close> calls at the latest, stays there for
  every later call, and a call at the target returns the target.
\<close>

theorem radial_iter_converges:
  assumes "0 \<le> c" "c < 360" "0 \<le> t" "t < 360" "1 \<le> s"
  shows "radial_iter (nat \<lceil>real_of_int (circular_distance c t) / real_of_int s\<rceil>) c t s = t
       \<and> (\<forall>n \<ge> nat \<lceil>real_of_int (circular_distance c t) / real_of_int s\<rceil>.
            radial_iter n c t s = t)
       \<and> take_radial_step t t s = t"
proof -
  let ?d = "circular_distance c t"
  let ?N = "nat \<lceil>real_of_int ?d / real_of_int s\<rceil>"
  have d0: "0 \<le> ?d" using assms unfolding circular_distance_def by simp
  have spos: "0 < real_of_int s" using assms by simp
  have "real_of_int ?d / real_of_int s \<le> real_of_int \<lceil>real_of_int ?d / real_of_int s\<rceil>"
    by (rule le_of_int_ceiling)
  then have "real_of_int ?d \<le> real_of_int \<lceil>real_of_int ?d / real_of_int s\<rceil> * real_of_int s"
    by (simp only: pos_divide_le_eq[OF spos])
  then have le: "?d \<le> \<lceil>real_of_int ?d / real_of_int s\<rceil> * s"
    by (metis of_int_le_iff of_int_mult)
  have "0 \<le> real_of_int ?d / real_of_int s" using d0 spos by simp
  then have c0: "0 \<le> \<lceil>real_of_int ?d / real_of_int s\<rceil>"
    by (simp only: zero_le_ceiling)
  have bound: "?d \<le> int n * s" if "?N \<le> n" for n
  proof -
    have "\<lceil>real_of_int ?d / real_of_int s\<rceil> \<le> int n" using that c0 by linarith
    then have "\<lceil>real_of_int ?d / real_of_int s\<rceil> * s \<le> int n * s"
      using assms by (simp add: mult_right_mono)
    with le show ?thesis by linarith
  qed
  have all: "radial_iter n c t s = t" if "?N \<le> n" for n
    using radial_iter_reaches[OF assms(3,4,5) assms(1,2) bound[OF that]] .
  have idem: "take_radial_step t t s = t"
    using assms by (simp add: step_snap circular_distance_def)
  show ?thesis using all[OF order_refl] all idem by blast
qed

theorem radial_iter_converges_witness:
  "radial_iter 4 350 10 5 = 10 \<and> radial_iter 3 350 10 5 = 5 \<and> take_radial_step 10 10 5 = 10"
proof -
  have d: "circular_distance 350 10 = 20" by (simp add: circular_distance_def)
  have n: "nat \<lceil>real_of_int 20 / real_of_int 5\<rceil> = 4" by simp
  have "radial_iter 4 350 10 5 = 10 \<and> take_radial_step 10 10 5 = 10"
    using radial_iter_converges[of 350 10 5] unfolding d n by simp
  moreover have "radial_iter 3 350 10 5 = 5"
    by (simp add: numeral_3_eq_3 take_radial_step_def)
  ultimately show ?thesis by simp
qed

text \<open>
  Claim C6, as the specification states it, fails: the function truncates, it
  does not round. At 50 the exact product is 32767.5.
\<close>

theorem scale_color_val_not_round:
  "scale_color_val 50 = 32767 \<and> spec_scale 50 = 32768"
  by (simp add: scale_color_val_div spec_scale_def round_def)

text \<open>
  Claim C6, amended. For every integer of magnitude below 3276820 (where the
  exact arithmetic of the model and the binary64 arithmetic of the interpreter
  agree), \<open>scale_color_val\<close> is the integer part of \<open>|v| / 100 * 0xffff\<close>
  (at most one below the rounded value); it takes the magnitude of negative
  inputs, is 0 at 0 and 65535 at magnitude 100.
\<close>

theorem scale_color_val_truncates:
  assumes "\<bar>v\<bar> < 3276820"
  shows "scale_color_val v = \<lfloor>\<bar>real_of_int v\<bar> / 100 * 65535\<rfloor>
   \<and> scale_color_val v = (\<bar>v\<bar> * 65535) div 100
   \<and> scale_color_val (- v) = scale_color_val v
   \<and> spec_scale v - 1 \<le> scale_color_val v \<and> scale_color_val v \<le> spec_scale v
   \<and> scale_color_val 0 = 0 \<and> scale_color_val 100 = 65535 \<and> scale_color_val (- 100) = 65535"
proof -
  have a: "scale_color_val v = \<lfloor>\<bar>real_of_int v\<bar> / 100 * 65535\<rfloor>"
    by (simp add: scale_color_val_def)
  have b: "spec_scale v - 1 \<le> scale_color_val v \<and> scale_color_val v \<le> spec_scale v"
    unfolding a spec_scale_def round_def by linarith
  have c: "scale_color_val (- v) = scale_color_val v"
    by (simp add: scale_color_val_div)
  have d: "scale_color_val 0 = 0 \<and> scale_color_val 100 = 65535 \<and> scale_color_val (- 100) = 65535"
    by (simp add: scale_color_val_div)
  show ?thesis using a b c d scale_color_val_div[of v] by blast
qed

theorem scale_color_val_truncates_witness:
  "scale_color_val (- 37) = 24247 \<and> scale_color_val 37 = 24247 \<and> spec_scale (- 37) = 24248
   \<and> scale_color_val 0 = 0 \<and> scale_color_val 100 = 65535 \<and> scale_color_val (- 100) = 65535"
proof -
  have h: "\<bar>- 37 :: int\<bar> < 3276820" by simp
  have r: "spec_scale (- 37) = 24248" by (simp add: spec_scale_def round_def)
  from scale_color_val_truncates[OF h] r show ?thesis by simp
qed

section \<open>The background activity\<close>

lemma step_color_eq:
  "step_color t c =
     \<lparr>c_hue = take_radial_step (c_hue c) (c_hue t) 5 mod 360,
      c_sat = linear_step (c_sat c) (c_sat t),
      c_val = linear_step (c_val c) (c_val t),
      white_channel = white_channel c\<rparr>"
  by (simp add: step_color_def hsv_items_def step_param_def get_hsv_def set_hsv_def Let_def linear_step_def)

lemma tick_live: "live (tick sd i a) = step_color (target a) (live a)"
  by (simp add: tick_def Let_def)

lemma tick_target:
  "target (tick sd i a) =
     (if sd \<noteq> 0 \<and> c_val (live (tick sd i a)) = 0 \<and> c_val (target a) = 0
      then (target a)\<lparr>c_val := 100\<rparr> else target a)"
  by (simp add: tick_def get_hsv_def set_hsv_def Let_def)

lemma tick_sleeps: "sleeps (tick sd i a) = Suc (sleeps a)"
  by (simp add: tick_def Let_def)

lemma tick_trace: "trace (tick sd i a) = trace a @ [Sleep i, SetPwm (live (tick sd i a))]"
  by (simp add: tick_def Let_def)

lemma linear_step_closer:
  "\<bar>linear_step x t - t\<bar> \<le> \<bar>x - t\<bar>" "x \<noteq> t \<Longrightarrow> \<bar>linear_step x t - t\<bar> < \<bar>x - t\<bar>"
  by (simp_all add: linear_step_def)

lemma circular_distance_nonneg:
  assumes "0 \<le> c" "c < 360" "0 \<le> t" "t < 360"
  shows "0 \<le> circular_distance c t"
  using assms unfolding circular_distance_def by auto

lemma hue_step_closer:
  assumes "0 \<le> h" "h < 360" "0 \<le> t" "t < 360"
  shows "0 \<le> take_radial_step h t 5 \<and> take_radial_step h t 5 < 360
    \<and> circular_distance (take_radial_step h t 5) t \<le> circular_distance h t
    \<and> (h \<noteq> t \<longrightarrow> circular_distance (take_radial_step h t 5) t < circular_distance h t)"
proof (cases "circular_distance h t \<le> 5")
  case True
  then have e: "take_radial_step h t 5 = t" by (rule step_snap)
  have z: "circular_distance t t = 0" by (simp add: circular_distance_def)
  have nz: "0 < circular_distance h t" if "h \<noteq> t"
    using circular_distance_zero[OF assms] that by force
  note d0 = circular_distance_nonneg[OF assms]
  show ?thesis using assms d0 nz by (simp add: e z)
next
  case False
  then have far: "5 < circular_distance h t" by simp
  from step_far_props[OF assms far] show ?thesis by simp
qed

lemma step_color_hue_ok:
  assumes "hue_ok c" "hue_ok t"
  shows "hue_ok (step_color t c)"
  using assms hue_step_closer[of "c_hue c" "c_hue t"]
  by (simp add: hue_ok_def step_color_eq)

lemma tick_hue_ok:
  assumes "hue_ok (live a)" "hue_ok (target a)"
  shows "hue_ok (live (tick sd i a)) \<and> hue_ok (target (tick sd i a))"
  using assms step_color_hue_ok[of "live a" "target a"]
  by (simp add: tick_live tick_target) (simp add: hue_ok_def)

lemma tick_decreases:
  assumes "hue_ok (live a)" "hue_ok (target a)" "\<not> color_eq (live a) (target a)"
  shows "remaining sd (tick sd i a) < remaining sd a \<and> 0 \<le> remaining sd (tick sd i a)"
proof -
  let ?c = "live a" and ?t = "target a"
  let ?h = "take_radial_step (c_hue ?c) (c_hue ?t) 5"
  let ?v = "linear_step (c_val ?c) (c_val ?t)"
  from assms have r: "0 \<le> c_hue ?c" "c_hue ?c < 360" "0 \<le> c_hue ?t" "c_hue ?t < 360"
    by (simp_all add: hue_ok_def)
  note H = hue_step_closer[OF r]
  have hm: "?h mod 360 = ?h" using H by simp
  note S = linear_step_closer[of "c_sat ?c" "c_sat ?t"]
  note V = linear_step_closer[of "c_val ?c" "c_val ?t"]
  have d0: "0 \<le> circular_distance ?h (c_hue ?t)"
    using H r by (intro circular_distance_nonneg) simp_all
  from assms(3) consider "c_hue ?c \<noteq> c_hue ?t" | "c_sat ?c \<noteq> c_sat ?t" | "c_val ?c \<noteq> c_val ?t"
    by (auto simp: color_eq_def)
  then have strict:
    "circular_distance ?h (c_hue ?t) + \<bar>linear_step (c_sat ?c) (c_sat ?t) - c_sat ?t\<bar>
       + \<bar>?v - c_val ?t\<bar>
     < circular_distance (c_hue ?c) (c_hue ?t) + \<bar>c_sat ?c - c_sat ?t\<bar> + \<bar>c_val ?c - c_val ?t\<bar>"
  proof cases
    case 1 then show ?thesis using H S(1) V(1) by linarith
  next
    case 2 then show ?thesis using H S V(1) by linarith
  next
    case 3 then show ?thesis using H S(1) V by linarith
  qed
  show ?thesis
  proof (cases "sd \<noteq> 0 \<and> c_val ?t = 0")
    case manual: True
    show ?thesis
    proof (cases "?v = 0")
      case True
      have "remaining sd (tick sd i a) = circular_distance ?h (c_hue ?t)
              + \<bar>linear_step (c_sat ?c) (c_sat ?t) - c_sat ?t\<bar> + 100"
        using manual True by (simp add: remaining_def tick_live tick_target step_color_eq hm)
      moreover have "remaining sd a = circular_distance (c_hue ?c) (c_hue ?t)
              + \<bar>c_sat ?c - c_sat ?t\<bar> + \<bar>c_val ?c\<bar> + 101"
        using manual by (simp add: remaining_def)
      ultimately show ?thesis using H S(1) d0 by linarith
    next
      case False
      have "remaining sd (tick sd i a) = circular_distance ?h (c_hue ?t)
              + \<bar>linear_step (c_sat ?c) (c_sat ?t) - c_sat ?t\<bar> + \<bar>?v\<bar> + 101"
        using manual False by (simp add: remaining_def tick_live tick_target step_color_eq hm)
      moreover have "remaining sd a = circular_distance (c_hue ?c) (c_hue ?t)
              + \<bar>c_sat ?c - c_sat ?t\<bar> + \<bar>c_val ?c\<bar> + 101"
        using manual by (simp add: remaining_def)
      ultimately show ?thesis using strict manual d0 by simp
    qed
  next
    case False
    then have "remaining sd (tick sd i a) = circular_distance ?h (c_hue ?t)
              + \<bar>linear_step (c_sat ?c) (c_sat ?t) - c_sat ?t\<bar> + \<bar>?v - c_val ?t\<bar>"
      by (auto simp: remaining_def tick_live tick_target step_color_eq hm)
    moreover have "remaining sd a = circular_distance (c_hue ?c) (c_hue ?t)
              + \<bar>c_sat ?c - c_sat ?t\<bar> + \<bar>c_val ?c - c_val ?t\<bar>"
      using False by (auto simp: remaining_def)
    ultimately show ?thesis using strict d0 by linarith
  qed
qed



lemma loop_exit: "finished stop a \<Longrightarrow> dimmer_loop sd i stop a = Some (Inr a)"
  by (subst dimmer_loop.simps) (auto simp: finished_def)

lemma loop_step:
  "0 \<le> i \<Longrightarrow> \<not> finished stop a
   \<Longrightarrow> dimmer_loop sd i stop a = dimmer_loop sd i stop (tick sd i a)"
  by (subst dimmer_loop.simps) (simp add: finished_def)

lemma loop_raises:
  "i < 0 \<Longrightarrow> \<not> finished stop a \<Longrightarrow> dimmer_loop sd i stop a = Some (Inl ValueError)"
  by (subst dimmer_loop.simps) (simp add: finished_def)

lemma funpow_shift: "(f ^^ Suc k) x = (f ^^ k) (f x)"
  by (simp add: funpow_swap1)

lemma loop_iter:
  assumes i: "0 \<le> i"
  shows "(\<forall>k<n. \<not> finished stop ((tick sd i ^^ k) a)) \<Longrightarrow> finished stop ((tick sd i ^^ n) a)
   \<Longrightarrow> dimmer_loop sd i stop a = Some (Inr ((tick sd i ^^ n) a))"
proof (induction n arbitrary: a)
  case 0
  then show ?case by (simp add: loop_exit)
next
  case (Suc n)
  from Suc.prems(1) have nf: "\<not> finished stop a" by force
  have "\<forall>k<n. \<not> finished stop ((tick sd i ^^ k) (tick sd i a))"
  proof (intro allI impI)
    fix k assume "k < n"
    then have "\<not> finished stop ((tick sd i ^^ Suc k) a)"
      using Suc.prems(1) by (simp del: funpow.simps)
    then show "\<not> finished stop ((tick sd i ^^ k) (tick sd i a))"
      unfolding funpow_shift .
  qed
  moreover have "finished stop ((tick sd i ^^ n) (tick sd i a))"
    using Suc.prems(2) unfolding funpow_shift .
  ultimately have "dimmer_loop sd i stop (tick sd i a) = Some (Inr ((tick sd i ^^ n) (tick sd i a)))"
    by (rule Suc.IH)
  then show ?case unfolding funpow_shift loop_step[OF i nf] .
qed

lemma ticks_exist:
  "hue_ok (live a) \<Longrightarrow> hue_ok (target a) \<Longrightarrow> 0 \<le> remaining sd a \<Longrightarrow>
   \<exists>n. finished stop ((tick sd i ^^ n) a) \<and> (\<forall>k<n. \<not> finished stop ((tick sd i ^^ k) a))"
proof (induction "nat (remaining sd a)" arbitrary: a rule: less_induct)
  case less
  show ?case
  proof (cases "finished stop a")
    case True
    then have "finished stop ((tick sd i ^^ 0) a) \<and> (\<forall>k<0. \<not> finished stop ((tick sd i ^^ k) a))"
      by simp
    then show ?thesis by blast
  next
    case False
    then have ne: "\<not> color_eq (live a) (target a)" by (simp add: finished_def)
    note d = tick_decreases[OF less.prems(1,2) ne, of sd i]
    note h = tick_hue_ok[OF less.prems(1,2), of sd i]
    have "nat (remaining sd (tick sd i a)) < nat (remaining sd a)" using d by linarith
    from less.hyps[OF this] h d obtain n where
      n: "finished stop ((tick sd i ^^ n) (tick sd i a))"
         "\<forall>k<n. \<not> finished stop ((tick sd i ^^ k) (tick sd i a))"
      by blast
    have "finished stop ((tick sd i ^^ Suc n) a)"
      using n(1) unfolding funpow_shift .
    moreover have "\<forall>k<Suc n. \<not> finished stop ((tick sd i ^^ k) a)"
    proof (intro allI impI)
      fix k assume k: "k < Suc n"
      show "\<not> finished stop ((tick sd i ^^ k) a)"
      proof (cases k)
        case 0
        then show ?thesis using False by simp
      next
        case (Suc j)
        then have "j < n" using k by simp
        with n(2) have "\<not> finished stop ((tick sd i ^^ j) (tick sd i a))" by blast
        then show ?thesis unfolding Suc funpow_shift .
      qed
    qed
    ultimately show ?thesis by blast
  qed
qed

lemma remaining_nonneg: "hue_ok (live a) \<Longrightarrow> hue_ok (target a) \<Longrightarrow> 0 \<le> remaining sd a"
  using circular_distance_nonneg[of "c_hue (live a)" "c_hue (target a)"]
  by (simp add: remaining_def hue_ok_def)

lemma dimmer_loop_terminates:
  assumes "hue_ok (live a)" "hue_ok (target a)" and i: "0 \<le> i"
  shows "\<exists>n. dimmer_loop sd i stop a = Some (Inr ((tick sd i ^^ n) a))
            \<and> finished stop ((tick sd i ^^ n) a)
            \<and> (\<forall>k<n. \<not> finished stop ((tick sd i ^^ k) a))"
proof -
  from ticks_exist[OF assms(1,2) remaining_nonneg[OF assms(1,2)]] obtain n where
    n: "finished stop ((tick sd i ^^ n) a)" "\<forall>k<n. \<not> finished stop ((tick sd i ^^ k) a)"
    by blast
  from loop_iter[OF i n(2) n(1)] n show ?thesis by blast
qed

section \<open>Manual dimming\<close>

lemma tick_val_inv: "sd \<noteq> 0 \<Longrightarrow> val_inv a \<Longrightarrow> val_inv (tick sd i a)"
  by (auto simp: val_inv_def tick_target tick_live step_color_eq linear_step_def)

lemma ticks_val_inv: "sd \<noteq> 0 \<Longrightarrow> val_inv a \<Longrightarrow> val_inv ((tick sd i ^^ n) a)"
  by (induction n) (simp_all add: tick_val_inv)

lemma tick_flip_one:
  "sd \<noteq> 0 \<Longrightarrow> \<not> (c_val (live (tick sd i a)) = 0 \<and> c_val (target (tick sd i a)) = 0)"
  by (simp add: tick_target)

lemma ticks_target_zero_delay: "target ((tick 0 i ^^ n) a) = target a"
  by (induction n) (simp_all add: tick_target)

text \<open>
  Claim C8. With a non-zero start delay, a pass that leaves the live brightness
  at 0 while the target brightness is 0 sets the target brightness to 100, so
  after a pass the two are never 0 together; with a zero start delay no pass
  changes the target.
\<close>

theorem bidirectional_flip:
  "(sd \<noteq> 0 \<longrightarrow>
      (c_val (live (tick sd i a)) = 0 \<and> c_val (target a) = 0
         \<longrightarrow> target (tick sd i a) = (target a)\<lparr>c_val := 100\<rparr>)
      \<and> \<not> (c_val (live ((tick sd i ^^ Suc n) a)) = 0
            \<and> c_val (target ((tick sd i ^^ Suc n) a)) = 0))
   \<and> (sd = 0 \<longrightarrow> target ((tick sd i ^^ n) a) = target a)"
  using tick_flip_one[of sd i "(tick sd i ^^ n) a"]
  by (simp add: tick_target ticks_target_zero_delay)

theorem bidirectional_flip_witness:
  "target (tick (1 / 2) (1 / 5)
       \<lparr>live = \<lparr>c_hue = 30, c_sat = 40, c_val = 5, white_channel = False\<rparr>,
        target = \<lparr>c_hue = 30, c_sat = 40, c_val = 0, white_channel = False\<rparr>,
        sleeps = 5, trace = []\<rparr>)
     = \<lparr>c_hue = 30, c_sat = 40, c_val = 100, white_channel = False\<rparr>
   \<and> target ((tick 0 (1 / 5) ^^ 1)
       \<lparr>live = \<lparr>c_hue = 30, c_sat = 40, c_val = 5, white_channel = False\<rparr>,
        target = \<lparr>c_hue = 30, c_sat = 40, c_val = 0, white_channel = False\<rparr>,
        sleeps = 0, trace = []\<rparr>)
     = \<lparr>c_hue = 30, c_sat = 40, c_val = 0, white_channel = False\<rparr>"
  using bidirectional_flip[of "1 / 2" "1 / 5"
       "\<lparr>live = \<lparr>c_hue = 30, c_sat = 40, c_val = 5, white_channel = False\<rparr>,
        target = \<lparr>c_hue = 30, c_sat = 40, c_val = 0, white_channel = False\<rparr>,
        sleeps = 5, trace = []\<rparr>" 0]
    bidirectional_flip[of 0 "1 / 5"
       "\<lparr>live = \<lparr>c_hue = 30, c_sat = 40, c_val = 5, white_channel = False\<rparr>,
        target = \<lparr>c_hue = 30, c_sat = 40, c_val = 0, white_channel = False\<rparr>,
        sleeps = 0, trace = []\<rparr>" 1]
  by (simp add: tick_live step_color_eq linear_step_def)


lemma start_dimming_thread:
  assumes "\<not> smooth_change_in_progress (dimmer a)"
  shows "thread (dimmer (start_dimming a)) =
           Some \<lparr>t_start_delay = dimming_delay (dimmer a),
                 t_interval_time = dimming_interval (dimmer a),
                 t_target_value = (state_current a)
                     \<lparr>c_val := (if c_val (state_current a) \<noteq> 0 then 0 else 100)\<rparr>\<rparr>"
  using assms
  by (simp add: start_dimming_def start_thread_def emit_def Let_def get_hsv_def set_hsv_def)

text \<open>
  Claim C10. The activity that \<open>start_dimming\<close> starts with a positive delay
  and an interval that is not negative (so that \<^verbatim>\<open>sleep\<close> does not raise), if it
  is never cancelled, returns, and it returns with the live brightness at 100,
  whatever the brightness it started from.
\<close>

theorem manual_dimming_ends_at_full:
  assumes "\<not> smooth_change_in_progress (dimmer a)" "0 < dimming_delay (dimmer a)"
    "hue_ok (state_current a)" "0 \<le> dimming_interval (dimmer a)"
  shows "\<exists>th b. thread (dimmer (start_dimming a)) = Some th
           \<and> t_start_delay th = dimming_delay (dimmer a)
           \<and> run_thread th (\<lambda>_. False) (state_current a) = Some (Inr b)
           \<and> c_val (live b) = 100"
proof -
  let ?c = "state_current a"
  let ?t = "?c\<lparr>c_val := (if c_val ?c \<noteq> 0 then 0 else 100)\<rparr>"
  let ?sd = "dimming_delay (dimmer a)" and ?i = "dimming_interval (dimmer a)"
  let ?th = "\<lparr>t_start_delay = ?sd, t_interval_time = ?i, t_target_value = ?t\<rparr>"
  let ?k = "wait_delay 0 ?sd (\<lambda>_. False) 0"
  let ?a0 = "\<lparr>live = ?c, target = ?t, sleeps = ?k, trace = replicate ?k (Sleep (1 / 10))\<rparr>"
  have sd: "?sd \<noteq> 0" using assms(2) by simp
  have h: "hue_ok (live ?a0)" "hue_ok (target ?a0)" using assms(3) by (simp_all add: hue_ok_def)
  from dimmer_loop_terminates[OF h assms(4), of ?sd "\<lambda>_. False"] obtain n where
    n: "dimmer_loop ?sd ?i (\<lambda>_. False) ?a0 = Some (Inr ((tick ?sd ?i ^^ n) ?a0))"
       "finished (\<lambda>_. False) ((tick ?sd ?i ^^ n) ?a0)"
    by blast
  have "val_inv ?a0" by (simp add: val_inv_def)
  from ticks_val_inv[OF sd this, where i = ?i and n = n] n(2)
  have v: "c_val (live ((tick ?sd ?i ^^ n) ?a0)) = 100"
    by (auto simp: val_inv_def finished_def color_eq_def)
  have "run_thread ?th (\<lambda>_. False) ?c
          = Some (Inr (((tick ?sd ?i ^^ n) ?a0)\<lparr>trace := trace ((tick ?sd ?i ^^ n) ?a0) @ [SetInProgress False]\<rparr>))"
    by (simp add: run_thread_def smooth_dimmer_def Let_def n(1))
  with v start_dimming_thread[OF assms(1)] show ?thesis by simp
qed

theorem manual_dimming_ends_at_full_witness:
  "\<exists>th b. thread (dimmer (start_dimming
            (init_actuator \<lparr>c_hue = 30, c_sat = 40, c_val = 60, white_channel = False\<rparr> 3))) = Some th
         \<and> t_start_delay th = 5 / 10
         \<and> run_thread th (\<lambda>_. False) \<lparr>c_hue = 30, c_sat = 40, c_val = 60, white_channel = False\<rparr>
             = Some (Inr b)
         \<and> c_val (live b) = 100"
  using manual_dimming_ends_at_full
    [of "init_actuator \<lparr>c_hue = 30, c_sat = 40, c_val = 60, white_channel = False\<rparr> 3"]
  by (simp add: init_actuator_def hue_ok_def)

section \<open>Smooth transitions\<close>

lemma wait_delay_zero: "wait_delay 0 0 stop 0 = 0"
  by (simp add: wait_delay.simps)

lemma remaining_zero_delay: "remaining 0 a = color_distance (live a) (target a)"
  by (simp add: remaining_def color_distance_def)

lemma step_color_closer:
  assumes "hue_ok c" "hue_ok t" "\<not> color_eq c t"
  shows "color_distance (step_color t c) t < color_distance c t"
    and "hue_ok (step_color t c)"
proof -
  let ?a = "\<lparr>live = c, target = t, sleeps = 0, trace = []\<rparr>"
  from tick_decreases[of ?a 0 0] assms
  show "color_distance (step_color t c) t < color_distance c t"
    by (simp add: remaining_zero_delay tick_live tick_target)
  show "hue_ok (step_color t c)" using assms by (simp add: step_color_hue_ok)
qed

lemma ticks_zero_delay:
  "(tick 0 i ^^ n) a =
     \<lparr>live = (step_color (target a) ^^ n) (live a), target = target a,
      sleeps = sleeps a + n,
      trace = trace a @ concat (map (\<lambda>k. [Sleep i, SetPwm ((step_color (target a) ^^ Suc k) (live a))]) [0..<n])\<rparr>"
proof (induction n)
  case 0
  show ?case by simp
next
  case (Suc n)
  have "(tick 0 i ^^ Suc n) a = tick 0 i ((tick 0 i ^^ n) a)" by simp
  also have "\<dots> = \<lparr>live = (step_color (target a) ^^ Suc n) (live a), target = target a,
      sleeps = sleeps a + Suc n,
      trace = trace a @ concat (map (\<lambda>k. [Sleep i, SetPwm ((step_color (target a) ^^ Suc k) (live a))]) [0..<Suc n])\<rparr>"
    unfolding Suc.IH by (simp add: tick_def Let_def)
  finally show ?case .
qed

lemma apply_value_change_thread:
  assumes "smooth_change_interval (dimmer a) \<noteq> 0"
  shows "thread (dimmer (apply_value_change a v)) =
           Some \<lparr>t_start_delay = 0, t_interval_time = smooth_change_interval (dimmer a),
                 t_target_value = v\<rparr>"
    and "effects (apply_value_change a v) =
           effects a @ [SetStopThread True, SetInProgress True]
             @ (if thread (dimmer a) = None then [] else [Join None])
             @ [SetStopThread False, StartThread 0 (smooth_change_interval (dimmer a)) v]"
  using assms
  by (simp_all add: apply_value_change_def start_thread_def emit_def Let_def)

lemma smooth_activity:
  assumes "hue_ok cur" "hue_ok v" "0 \<le> i"
  shows "\<exists>n. smooth_dimmer 0 i v stop cur =
               Some (Inr \<lparr>live = (step_color v ^^ n) cur, target = v, sleeps = n,
                     trace = concat (map (\<lambda>k. [Sleep i, SetPwm ((step_color v ^^ Suc k) cur)]) [0..<n])
                             @ [SetInProgress False]\<rparr>)
           \<and> (color_eq ((step_color v ^^ n) cur) v \<or> stop n)
           \<and> (\<forall>k<n. \<not> color_eq ((step_color v ^^ k) cur) v \<and> \<not> stop k)"
proof -
  let ?a0 = "\<lparr>live = cur, target = v, sleeps = 0, trace = []\<rparr>"
  have h: "hue_ok (live ?a0)" "hue_ok (target ?a0)" using assms by simp_all
  from dimmer_loop_terminates[OF h assms(3), of 0 stop] obtain n where
    n: "dimmer_loop 0 i stop ?a0 = Some (Inr ((tick 0 i ^^ n) ?a0))"
       "finished stop ((tick 0 i ^^ n) ?a0)"
       "\<forall>k<n. \<not> finished stop ((tick 0 i ^^ k) ?a0)"
    by blast
  have "smooth_dimmer 0 i v stop cur =
               Some (Inr \<lparr>live = (step_color v ^^ n) cur, target = v, sleeps = n,
                     trace = concat (map (\<lambda>k. [Sleep i, SetPwm ((step_color v ^^ Suc k) cur)]) [0..<n])
                             @ [SetInProgress False]\<rparr>)"
    unfolding smooth_dimmer_def wait_delay_zero Let_def
    by (simp add: n(1) del: funpow.simps) (simp add: ticks_zero_delay del: funpow.simps)
  moreover have "color_eq ((step_color v ^^ n) cur) v \<or> stop n"
    using n(2) unfolding ticks_zero_delay finished_def by simp
  moreover have "\<forall>k<n. \<not> color_eq ((step_color v ^^ k) cur) v \<and> \<not> stop k"
    using n(3) unfolding ticks_zero_delay finished_def by simp
  ultimately show ?thesis by blast
qed

lemma smooth_thread:
  assumes h: "hue_ok cur" "hue_ok v" and i: "0 \<le> i"
  shows "\<exists>n. run_thread \<lparr>t_start_delay = 0, t_interval_time = i, t_target_value = v\<rparr> stop cur =
                 Some (Inr \<lparr>live = (step_color v ^^ n) cur, target = v, sleeps = n,
                       trace = concat (map (\<lambda>k. [Sleep i, SetPwm ((step_color v ^^ Suc k) cur)]) [0..<n])
                               @ [SetInProgress False]\<rparr>)
              \<and> (color_eq ((step_color v ^^ n) cur) v \<or> stop n)
              \<and> (\<forall>k<n. \<not> color_eq ((step_color v ^^ k) cur) v \<and> \<not> stop k
                        \<and> color_distance ((step_color v ^^ Suc k) cur) v
                            < color_distance ((step_color v ^^ k) cur) v)"
proof -
  have hk: "hue_ok ((step_color v ^^ k) cur)" for k
    by (induction k) (simp_all add: h step_color_hue_ok)
  from smooth_activity[OF h i, of stop] obtain n where
    n: "smooth_dimmer 0 i v stop cur =
               Some (Inr \<lparr>live = (step_color v ^^ n) cur, target = v, sleeps = n,
                     trace = concat (map (\<lambda>k. [Sleep i, SetPwm ((step_color v ^^ Suc k) cur)]) [0..<n])
                             @ [SetInProgress False]\<rparr>)"
       "color_eq ((step_color v ^^ n) cur) v \<or> stop n"
       "\<forall>k<n. \<not> color_eq ((step_color v ^^ k) cur) v \<and> \<not> stop k"
    by blast
  have "\<forall>k<n. \<not> color_eq ((step_color v ^^ k) cur) v \<and> \<not> stop k
                        \<and> color_distance ((step_color v ^^ Suc k) cur) v
                            < color_distance ((step_color v ^^ k) cur) v"
    using n(3) step_color_closer(1)[OF hk h(2)] by simp
  with n(1,2) show ?thesis
    unfolding run_thread_def by (auto simp del: funpow.simps)
qed

text \<open>
  Claim C2. With a smooth-change interval of 0, \<open>apply_value_change\<close> calls the
  hardware callback once and does nothing else. With a non-zero interval it
  sets the stop flag, joins the earlier thread if there is one, and starts a
  thread with start delay 0. With a positive interval (a negative one makes
  \<^verbatim>\<open>sleep\<close> raise) that thread, on colours with hues in \<open>[0,360)\<close>, returns
  after some number \<open>n\<close> of passes, each a sleep of the interval followed by
  a call of the callback with the next step toward the target (strictly nearer
  to it), and it stops at the first pass where the target is reached or the
  stop flag is read as set.
\<close>

theorem apply_value_change_spec:
  "(smooth_change_interval (dimmer a) = 0 \<longrightarrow>
      apply_value_change a v = a\<lparr>effects := effects a @ [SetPwm v]\<rparr>)
   \<and> (smooth_change_interval (dimmer a) \<noteq> 0 \<longrightarrow>
        effects (apply_value_change a v) =
           effects a @ [SetStopThread True, SetInProgress True]
             @ (if thread (dimmer a) = None then [] else [Join None])
             @ [SetStopThread False, StartThread 0 (smooth_change_interval (dimmer a)) v]
      \<and> thread (dimmer (apply_value_change a v)) =
           Some \<lparr>t_start_delay = 0, t_interval_time = smooth_change_interval (dimmer a),
                 t_target_value = v\<rparr>)
   \<and> (0 < smooth_change_interval (dimmer a) \<longrightarrow>
        (\<forall>cur stop. hue_ok cur \<and> hue_ok v \<longrightarrow>
           (\<exists>n. run_thread \<lparr>t_start_delay = 0,
                      t_interval_time = smooth_change_interval (dimmer a),
                      t_target_value = v\<rparr> stop cur =
                 Some (Inr \<lparr>live = (step_color v ^^ n) cur, target = v, sleeps = n,
                       trace = concat (map (\<lambda>k. [Sleep (smooth_change_interval (dimmer a)),
                                                  SetPwm ((step_color v ^^ Suc k) cur)]) [0..<n])
                               @ [SetInProgress False]\<rparr>)
              \<and> (color_eq ((step_color v ^^ n) cur) v \<or> stop n)
              \<and> (\<forall>k<n. \<not> color_eq ((step_color v ^^ k) cur) v \<and> \<not> stop k
                        \<and> color_distance ((step_color v ^^ Suc k) cur) v
                            < color_distance ((step_color v ^^ k) cur) v))))"
proof (intro conjI impI allI)
  assume "smooth_change_interval (dimmer a) = 0"
  then show "apply_value_change a v = a\<lparr>effects := effects a @ [SetPwm v]\<rparr>"
    by (simp add: apply_value_change_def emit_def)
next
  assume i: "smooth_change_interval (dimmer a) \<noteq> 0"
  show "effects (apply_value_change a v) =
           effects a @ [SetStopThread True, SetInProgress True]
             @ (if thread (dimmer a) = None then [] else [Join None])
             @ [SetStopThread False, StartThread 0 (smooth_change_interval (dimmer a)) v]"
    by (rule apply_value_change_thread(2)[OF i])
  show "thread (dimmer (apply_value_change a v)) =
           Some \<lparr>t_start_delay = 0, t_interval_time = smooth_change_interval (dimmer a),
                 t_target_value = v\<rparr>"
    by (rule apply_value_change_thread(1)[OF i])
next
  fix cur :: ColorHSV and stop :: stop_flag
  let ?i = "smooth_change_interval (dimmer a)"
  assume "0 < ?i" and "hue_ok cur \<and> hue_ok v"
  then have h: "hue_ok cur" "hue_ok v" and i: "0 \<le> ?i" by simp_all
  show "\<exists>n. run_thread \<lparr>t_start_delay = 0, t_interval_time = ?i, t_target_value = v\<rparr> stop cur =
                 Some (Inr \<lparr>live = (step_color v ^^ n) cur, target = v, sleeps = n,
                       trace = concat (map (\<lambda>k. [Sleep ?i, SetPwm ((step_color v ^^ Suc k) cur)]) [0..<n])
                               @ [SetInProgress False]\<rparr>)
              \<and> (color_eq ((step_color v ^^ n) cur) v \<or> stop n)
              \<and> (\<forall>k<n. \<not> color_eq ((step_color v ^^ k) cur) v \<and> \<not> stop k
                        \<and> color_distance ((step_color v ^^ Suc k) cur) v
                            < color_distance ((step_color v ^^ k) cur) v)"
    by (rule smooth_thread[OF h i])
qed

theorem apply_value_change_spec_witness:
  "apply_value_change
      ((init_actuator \<lparr>c_hue = 0, c_sat = 0, c_val = 0, white_channel = False\<rparr> 3)
         \<lparr>dimmer := (dimmer (init_actuator \<lparr>c_hue = 0, c_sat = 0, c_val = 0, white_channel = False\<rparr> 3))
            \<lparr>smooth_change_interval := 0\<rparr>\<rparr>)
      \<lparr>c_hue = 0, c_sat = 0, c_val = 10, white_channel = False\<rparr>
    = (init_actuator \<lparr>c_hue = 0, c_sat = 0, c_val = 0, white_channel = False\<rparr> 3)
         \<lparr>dimmer := (dimmer (init_actuator \<lparr>c_hue = 0, c_sat = 0, c_val = 0, white_channel = False\<rparr> 3))
            \<lparr>smooth_change_interval := 0\<rparr>,
          effects := [SetPwm \<lparr>c_hue = 0, c_sat = 0, c_val = 10, white_channel = False\<rparr>]\<rparr>
   \<and> effects (apply_value_change
         (init_actuator \<lparr>c_hue = 0, c_sat = 0, c_val = 0, white_channel = False\<rparr> 3)
         \<lparr>c_hue = 0, c_sat = 0, c_val = 10, white_channel = False\<rparr>)
       = [SetStopThread True, SetInProgress True, SetStopThread False,
          StartThread 0 (5 / 100) \<lparr>c_hue = 0, c_sat = 0, c_val = 10, white_channel = False\<rparr>]
   \<and> (\<exists>n. run_thread \<lparr>t_start_delay = 0, t_interval_time = 5 / 100,
                   t_target_value = \<lparr>c_hue = 0, c_sat = 0, c_val = 10, white_channel = False\<rparr>\<rparr>
              (\<lambda>_. False) \<lparr>c_hue = 0, c_sat = 0, c_val = 0, white_channel = False\<rparr>
           = Some (Inr \<lparr>live = (step_color \<lparr>c_hue = 0, c_sat = 0, c_val = 10, white_channel = False\<rparr> ^^ n)
                          \<lparr>c_hue = 0, c_sat = 0, c_val = 0, white_channel = False\<rparr>,
                   target = \<lparr>c_hue = 0, c_sat = 0, c_val = 10, white_channel = False\<rparr>,
                   sleeps = n,
                   trace = concat (map (\<lambda>k. [Sleep (5 / 100),
                                SetPwm ((step_color \<lparr>c_hue = 0, c_sat = 0, c_val = 10, white_channel = False\<rparr> ^^ Suc k)
                                   \<lparr>c_hue = 0, c_sat = 0, c_val = 0, white_channel = False\<rparr>)]) [0..<n])
                           @ [SetInProgress False]\<rparr>))"
proof -
  let ?c = "\<lparr>c_hue = 0, c_sat = 0, c_val = 0, white_channel = False\<rparr>"
  let ?v = "\<lparr>c_hue = 0, c_sat = 0, c_val = 10, white_channel = False\<rparr>"
  let ?a = "init_actuator ?c 3"
  let ?z = "?a\<lparr>dimmer := (dimmer ?a)\<lparr>smooth_change_interval := 0\<rparr>\<rparr>"
  have i: "smooth_change_interval (dimmer ?a) = 5 / 100" by (simp add: init_actuator_def)
  have h: "hue_ok ?c \<and> hue_ok ?v" by (simp add: hue_ok_def)
  have "apply_value_change ?z ?v = ?z\<lparr>effects := effects ?z @ [SetPwm ?v]\<rparr>"
    using apply_value_change_spec[of ?z ?v] by simp
  then have first: "apply_value_change ?z ?v = ?z\<lparr>effects := [SetPwm ?v]\<rparr>"
    by (simp add: init_actuator_def)
  from apply_value_change_spec[of ?a ?v]
  have second: "effects (apply_value_change ?a ?v) =
           effects ?a @ [SetStopThread True, SetInProgress True]
             @ (if thread (dimmer ?a) = None then [] else [Join None])
             @ [SetStopThread False, StartThread 0 (smooth_change_interval (dimmer ?a)) ?v]"
    and third: "\<forall>cur stop. hue_ok cur \<and> hue_ok ?v \<longrightarrow>
           (\<exists>n. run_thread \<lparr>t_start_delay = 0,
                      t_interval_time = smooth_change_interval (dimmer ?a),
                      t_target_value = ?v\<rparr> stop cur =
                 Some (Inr \<lparr>live = (step_color ?v ^^ n) cur, target = ?v, sleeps = n,
                       trace = concat (map (\<lambda>k. [Sleep (smooth_change_interval (dimmer ?a)),
                                                  SetPwm ((step_color ?v ^^ Suc k) cur)]) [0..<n])
                               @ [SetInProgress False]\<rparr>)
              \<and> (color_eq ((step_color ?v ^^ n) cur) ?v \<or> stop n)
              \<and> (\<forall>k<n. \<not> color_eq ((step_color ?v ^^ k) cur) ?v \<and> \<not> stop k
                        \<and> color_distance ((step_color ?v ^^ Suc k) cur) ?v
                            < color_distance ((step_color ?v ^^ k) cur) ?v))"
    unfolding i by simp_all
  from second have second': "effects (apply_value_change ?a ?v)
       = [SetStopThread True, SetInProgress True, SetStopThread False, StartThread 0 (5 / 100) ?v]"
    by (simp add: init_actuator_def)
  from third[rule_format, OF h, of "\<lambda>_. False"] obtain n where
    "run_thread \<lparr>t_start_delay = 0, t_interval_time = smooth_change_interval (dimmer ?a),
                 t_target_value = ?v\<rparr> (\<lambda>_. False) ?c =
       Some (Inr \<lparr>live = (step_color ?v ^^ n) ?c, target = ?v, sleeps = n,
             trace = concat (map (\<lambda>k. [Sleep (smooth_change_interval (dimmer ?a)),
                                        SetPwm ((step_color ?v ^^ Suc k) ?c)]) [0..<n])
                     @ [SetInProgress False]\<rparr>)"
    by (elim exE conjE) (rule that)
  then have "\<exists>n. run_thread \<lparr>t_start_delay = 0, t_interval_time = 5 / 100, t_target_value = ?v\<rparr>
              (\<lambda>_. False) ?c
           = Some (Inr \<lparr>live = (step_color ?v ^^ n) ?c, target = ?v, sleeps = n,
                   trace = concat (map (\<lambda>k. [Sleep (5 / 100), SetPwm ((step_color ?v ^^ Suc k) ?c)]) [0..<n])
                           @ [SetInProgress False]\<rparr>)"
    unfolding i by (rule exI)
  with first second' show ?thesis by (intro conjI)
qed

lemma tick_rise:
  assumes "0 \<le> v" "v \<le> 95"
  shows "tick 0 i \<lparr>live = \<lparr>c_hue = 0, c_sat = 0, c_val = v, white_channel = w\<rparr>,
                    target = \<lparr>c_hue = 0, c_sat = 0, c_val = 100, white_channel = w'\<rparr>,
                    sleeps = n, trace = tr\<rparr>
       = \<lparr>live = \<lparr>c_hue = 0, c_sat = 0, c_val = v + 5, white_channel = w\<rparr>,
          target = \<lparr>c_hue = 0, c_sat = 0, c_val = 100, white_channel = w'\<rparr>,
          sleeps = Suc n,
          trace = tr @ [Sleep i, SetPwm \<lparr>c_hue = 0, c_sat = 0, c_val = v + 5, white_channel = w\<rparr>]\<rparr>"
  using assms
  by (simp add: tick_def step_color_eq linear_step_def get_hsv_def Let_def take_radial_step_def)

lemma loop_rise:
  assumes "0 \<le> v" "v \<le> 95" and i: "0 \<le> i"
  shows "dimmer_loop 0 i (\<lambda>_. False)
           \<lparr>live = \<lparr>c_hue = 0, c_sat = 0, c_val = v, white_channel = w\<rparr>,
            target = \<lparr>c_hue = 0, c_sat = 0, c_val = 100, white_channel = w'\<rparr>,
            sleeps = n, trace = tr\<rparr>
       = dimmer_loop 0 i (\<lambda>_. False)
           \<lparr>live = \<lparr>c_hue = 0, c_sat = 0, c_val = v + 5, white_channel = w\<rparr>,
            target = \<lparr>c_hue = 0, c_sat = 0, c_val = 100, white_channel = w'\<rparr>,
            sleeps = Suc n,
            trace = tr @ [Sleep i, SetPwm \<lparr>c_hue = 0, c_sat = 0, c_val = v + 5, white_channel = w\<rparr>]\<rparr>"
proof -
  have "\<not> finished (\<lambda>_. False)
           \<lparr>live = \<lparr>c_hue = 0, c_sat = 0, c_val = v, white_channel = w\<rparr>,
            target = \<lparr>c_hue = 0, c_sat = 0, c_val = 100, white_channel = w'\<rparr>,
            sleeps = n, trace = tr\<rparr>"
    using assms by (simp add: finished_def color_eq_def)
  from loop_step[OF i this] show ?thesis by (simp only: tick_rise[OF assms(1,2)])
qed

lemma loop_at_full:
  "dimmer_loop 0 i (\<lambda>_. False)
           \<lparr>live = \<lparr>c_hue = 0, c_sat = 0, c_val = 100, white_channel = w\<rparr>,
            target = \<lparr>c_hue = 0, c_sat = 0, c_val = 100, white_channel = w'\<rparr>,
            sleeps = n, trace = tr\<rparr>
   = Some (Inr \<lparr>live = \<lparr>c_hue = 0, c_sat = 0, c_val = 100, white_channel = w\<rparr>,
            target = \<lparr>c_hue = 0, c_sat = 0, c_val = 100, white_channel = w'\<rparr>,
            sleeps = n, trace = tr\<rparr>)"
  by (rule loop_exit) (simp add: finished_def color_eq_def)

lemma ramp_up:
  assumes "0 \<le> i"
  shows "\<exists>b. smooth_dimmer 0 i \<lparr>c_hue = 0, c_sat = 0, c_val = 100, white_channel = w'\<rparr> (\<lambda>_. False)
          \<lparr>c_hue = 0, c_sat = 0, c_val = 0, white_channel = w\<rparr> = Some (Inr b)
      \<and> live b = \<lparr>c_hue = 0, c_sat = 0, c_val = 100, white_channel = w\<rparr>
      \<and> map c_val (pwm_calls (trace b)) =
          [5, 10, 15, 20, 25, 30, 35, 40, 45, 50, 55, 60, 65, 70, 75, 80, 85, 90, 95, 100]"
  unfolding smooth_dimmer_def wait_delay_zero Let_def
  by (simp add: loop_rise[OF _ _ assms] loop_at_full)

text \<open>
  Claim C7. With a positive smooth-change interval (non-zero, and not negative,
  so that \<^verbatim>\<open>sleep\<close> does not raise), the thread that \<open>apply_value_change\<close>
  starts for the target (0, 0, 100), run on the colour (0, 0, 0) and never
  cancelled, returns with the live colour equal to the target; the callback is
  called 20 times, with the brightnesses 5, 10, ..., 100, which never decrease.
\<close>

theorem smooth_ramp_up:
  assumes "0 < smooth_change_interval (dimmer a)"
  shows "\<exists>th b. thread (dimmer (apply_value_change a
                    \<lparr>c_hue = 0, c_sat = 0, c_val = 100, white_channel = w\<rparr>)) = Some th
           \<and> t_start_delay th = 0
           \<and> run_thread th (\<lambda>_. False) \<lparr>c_hue = 0, c_sat = 0, c_val = 0, white_channel = w\<rparr> = Some (Inr b)
           \<and> color_eq (live b) \<lparr>c_hue = 0, c_sat = 0, c_val = 100, white_channel = w\<rparr>
           \<and> 20 \<le> length (pwm_calls (trace b))
           \<and> map c_val (pwm_calls (trace b)) = map (\<lambda>k. 5 * (int k + 1)) [0..<20]
           \<and> sorted (map c_val (pwm_calls (trace b)))"
proof -
  let ?i = "smooth_change_interval (dimmer a)"
  let ?t = "\<lparr>c_hue = 0, c_sat = 0, c_val = 100, white_channel = w\<rparr>"
  have i0: "0 \<le> ?i" and ne: "?i \<noteq> 0" using assms by simp_all
  from ramp_up[OF i0, of w w] obtain b where
    b: "smooth_dimmer 0 ?i ?t (\<lambda>_. False) \<lparr>c_hue = 0, c_sat = 0, c_val = 0, white_channel = w\<rparr> = Some (Inr b)"
       "live b = ?t"
       "map c_val (pwm_calls (trace b)) =
          [5, 10, 15, 20, 25, 30, 35, 40, 45, 50, 55, 60, 65, 70, 75, 80, 85, 90, 95, 100]"
    by (elim exE conjE) (rule that)
  have l: "length (map c_val (pwm_calls (trace b))) = 20" unfolding b(3) by simp
  have m: "map c_val (pwm_calls (trace b)) = map (\<lambda>k. 5 * (int k + 1)) [0..<20]"
    unfolding b(3) by (simp add: upt_rec)
  have s: "sorted (map c_val (pwm_calls (trace b)))" unfolding b(3) by simp
  have r: "run_thread \<lparr>t_start_delay = 0, t_interval_time = ?i, t_target_value = ?t\<rparr> (\<lambda>_. False)
             \<lparr>c_hue = 0, c_sat = 0, c_val = 0, white_channel = w\<rparr> = Some (Inr b)"
    by (simp add: run_thread_def b(1))
  from l have l': "20 \<le> length (pwm_calls (trace b))" by simp
  show ?thesis
    using apply_value_change_thread(1)[OF ne, of ?t] r b(2) l' m s
    by (simp add: color_eq_def)
qed

theorem smooth_ramp_up_witness:
  "\<exists>th b. thread (dimmer (apply_value_change
                    (init_actuator \<lparr>c_hue = 0, c_sat = 0, c_val = 0, white_channel = False\<rparr> 3)
                    \<lparr>c_hue = 0, c_sat = 0, c_val = 100, white_channel = False\<rparr>)) = Some th
           \<and> t_start_delay th = 0
           \<and> run_thread th (\<lambda>_. False) \<lparr>c_hue = 0, c_sat = 0, c_val = 0, white_channel = False\<rparr> = Some (Inr b)
           \<and> color_eq (live b) \<lparr>c_hue = 0, c_sat = 0, c_val = 100, white_channel = False\<rparr>
           \<and> 20 \<le> length (pwm_calls (trace b))
           \<and> map c_val (pwm_calls (trace b)) = map (\<lambda>k. 5 * (int k + 1)) [0..<20]
           \<and> sorted (map c_val (pwm_calls (trace b)))"
proof -
  have "0 < smooth_change_interval (dimmer
          (init_actuator \<lparr>c_hue = 0, c_sat = 0, c_val = 0, white_channel = False\<rparr> 3))"
    by (simp add: init_actuator_def)
  from smooth_ramp_up[OF this, of False] show ?thesis .
qed

section \<open>Commands\<close>

text \<open>
  Claim C3. While a smooth change is in progress \<open>start_dimming\<close> changes
  nothing. Otherwise, for a brightness that is not negative, it stores the
  current colour as the state before, builds a target that is the current
  colour with the brightness 0 if the current brightness is greater than 0 and
  100 otherwise, and starts a thread with the configured delay and interval
  (joining an earlier thread first, if there is one).
\<close>

theorem start_dimming_spec:
  "(smooth_change_in_progress (dimmer a) \<longrightarrow> start_dimming a = a)
   \<and> (\<not> smooth_change_in_progress (dimmer a) \<and> 0 \<le> c_val (state_current a) \<longrightarrow>
        dimming_state_before (dimmer (start_dimming a)) = Some (state_current a)
      \<and> thread (dimmer (start_dimming a)) =
          Some \<lparr>t_start_delay = dimming_delay (dimmer a),
                t_interval_time = dimming_interval (dimmer a),
                t_target_value = (state_current a)
                   \<lparr>c_val := (if 0 < c_val (state_current a) then 0 else 100)\<rparr>\<rparr>
      \<and> effects (start_dimming a) =
          effects a @ (if thread (dimmer a) = None then [] else [Join None])
            @ [SetStopThread False,
               StartThread (dimming_delay (dimmer a)) (dimming_interval (dimmer a))
                 ((state_current a)\<lparr>c_val := (if 0 < c_val (state_current a) then 0 else 100)\<rparr>)]
      \<and> state_current (start_dimming a) = state_current a)"
  by (auto simp: start_dimming_def start_thread_def emit_def Let_def get_hsv_def set_hsv_def)

theorem start_dimming_spec_witness:
  "start_dimming ((init_actuator \<lparr>c_hue = 30, c_sat = 40, c_val = 60, white_channel = False\<rparr> 3)
       \<lparr>dimmer := (dimmer (init_actuator \<lparr>c_hue = 30, c_sat = 40, c_val = 60, white_channel = False\<rparr> 3))
            \<lparr>smooth_change_in_progress := True\<rparr>\<rparr>)
     = (init_actuator \<lparr>c_hue = 30, c_sat = 40, c_val = 60, white_channel = False\<rparr> 3)
       \<lparr>dimmer := (dimmer (init_actuator \<lparr>c_hue = 30, c_sat = 40, c_val = 60, white_channel = False\<rparr> 3))
            \<lparr>smooth_change_in_progress := True\<rparr>\<rparr>
   \<and> effects (start_dimming (init_actuator \<lparr>c_hue = 30, c_sat = 40, c_val = 60, white_channel = False\<rparr> 3))
     = [SetStopThread False,
        StartThread (5 / 10) (2 / 10) \<lparr>c_hue = 30, c_sat = 40, c_val = 0, white_channel = False\<rparr>]
   \<and> dimming_state_before (dimmer (start_dimming
          (init_actuator \<lparr>c_hue = 30, c_sat = 40, c_val = 60, white_channel = False\<rparr> 3)))
     = Some \<lparr>c_hue = 30, c_sat = 40, c_val = 60, white_channel = False\<rparr>
   \<and> effects (start_dimming (init_actuator \<lparr>c_hue = 30, c_sat = 40, c_val = 0, white_channel = False\<rparr> 3))
     = [SetStopThread False,
        StartThread (5 / 10) (2 / 10) \<lparr>c_hue = 30, c_sat = 40, c_val = 100, white_channel = False\<rparr>]"
  using start_dimming_spec[of "init_actuator \<lparr>c_hue = 30, c_sat = 40, c_val = 60, white_channel = False\<rparr> 3"]
    start_dimming_spec[of "init_actuator \<lparr>c_hue = 30, c_sat = 40, c_val = 0, white_channel = False\<rparr> 3"]
    start_dimming_spec[of "(init_actuator \<lparr>c_hue = 30, c_sat = 40, c_val = 60, white_channel = False\<rparr> 3)
       \<lparr>dimmer := (dimmer (init_actuator \<lparr>c_hue = 30, c_sat = 40, c_val = 60, white_channel = False\<rparr> 3))
            \<lparr>smooth_change_in_progress := True\<rparr>\<rparr>"]
  by (simp add: init_actuator_def)

text \<open>
  Claim C1. While a smooth change is in progress \<open>stop_dimming\<close> returns false
  and changes nothing. Otherwise it sets the stop flag; with no thread it
  returns false; with a thread it joins it once with a timeout of 0.2 s, and
  then, if the thread has ended, returns true exactly when the current colour
  differs from the snapshot of \<open>start_dimming\<close>, and if the thread is still
  alive logs that and returns false without a second join.
\<close>

theorem stop_dimming_spec:
  "(smooth_change_in_progress (dimmer a) \<longrightarrow> stop_dimming a j = (False, a))
   \<and> (\<not> smooth_change_in_progress (dimmer a) \<longrightarrow>
        stop_thread (dimmer (snd (stop_dimming a j)))
      \<and> (thread (dimmer a) = None \<longrightarrow>
            fst (stop_dimming a j) = False
          \<and> effects (snd (stop_dimming a j)) = effects a @ [SetStopThread True])
      \<and> (thread (dimmer a) \<noteq> None \<longrightarrow>
           (\<forall>c. j = Ended c \<longrightarrow>
              effects (snd (stop_dimming a j)) =
                effects a @ [SetStopThread True, Join (Some (2 / 10))]
            \<and> state_current (snd (stop_dimming a j)) = c
            \<and> (\<forall>before. dimming_state_before (dimmer a) = Some before \<longrightarrow>
                  (fst (stop_dimming a j) \<longleftrightarrow> \<not> color_eq before c)))
         \<and> (j = StillAlive \<longrightarrow>
              fst (stop_dimming a j) = False
            \<and> effects (snd (stop_dimming a j)) =
                effects a @ [SetStopThread True, Join (Some (2 / 10)), LogDebug]
            \<and> state_current (snd (stop_dimming a j)) = state_current a)))"
  by (auto simp: stop_dimming_def emit_def Let_def differs_def split: option.splits join_result.splits)

theorem stop_dimming_spec_witness:
  "fst (stop_dimming dimming_actuator
          (Ended \<lparr>c_hue = 30, c_sat = 40, c_val = 45, white_channel = False\<rparr>))
   \<and> \<not> fst (stop_dimming dimming_actuator
          (Ended \<lparr>c_hue = 30, c_sat = 40, c_val = 60, white_channel = False\<rparr>))
   \<and> effects (snd (stop_dimming dimming_actuator
          (Ended \<lparr>c_hue = 30, c_sat = 40, c_val = 45, white_channel = False\<rparr>)))
       = [SetStopThread True, Join (Some (2 / 10))]
   \<and> \<not> fst (stop_dimming dimming_actuator StillAlive)
   \<and> effects (snd (stop_dimming dimming_actuator StillAlive))
       = [SetStopThread True, Join (Some (2 / 10)), LogDebug]
   \<and> stop_dimming (dimming_actuator\<lparr>dimmer := (dimmer dimming_actuator)\<lparr>smooth_change_in_progress := True\<rparr>\<rparr>)
        StillAlive
       = (False, dimming_actuator\<lparr>dimmer := (dimmer dimming_actuator)\<lparr>smooth_change_in_progress := True\<rparr>\<rparr>)"
  using
    stop_dimming_spec[of dimming_actuator "Ended \<lparr>c_hue = 30, c_sat = 40, c_val = 45, white_channel = False\<rparr>"]
    stop_dimming_spec[of dimming_actuator "Ended \<lparr>c_hue = 30, c_sat = 40, c_val = 60, white_channel = False\<rparr>"]
    stop_dimming_spec[of dimming_actuator StillAlive]
    stop_dimming_spec[of "dimming_actuator\<lparr>dimmer := (dimmer dimming_actuator)\<lparr>smooth_change_in_progress := True\<rparr>\<rparr>" StillAlive]
  by (simp add: dimming_actuator_def init_actuator_def Let_def color_eq_def)

lemma set_val_eq: "color_eq c (set_hsv c C_VAL v) \<longleftrightarrow> c_val c = v"
  by (auto simp: color_eq_def set_hsv_def)

lemma dispatch_new_color:
  assumes "dispatch_msg env a msg = Inr (NewColor a' c)" "color_eq (state_current a') c"
  shows "a' = a"
proof (rule ccontr)
  assume ne: "a' \<noteq> a"
  with assms(1) have "a' = a\<lparr>state_last := state_current a\<rparr>
      \<and> c = set_hsv (state_current a) C_VAL 0 \<and> get_hsv (state_current a) C_VAL > 0"
    by (auto simp: dispatch_msg_def Let_def split: if_splits option.splits prod.splits)
  with assms(2) show False by (simp add: set_val_eq get_hsv_def)
qed

text \<open>
  Claim C9. A command that leaves a candidate colour equal to the current
  colour is dropped: the actuator is as before but for one log entry, so the
  hardware callback is not called, no thread is started, nothing is published,
  and the current state is unchanged.
\<close>

theorem equal_command_dropped:
  assumes "dispatch_msg env a msg = Inr (NewColor a' c)" "color_eq (state_current a') c"
  shows "on_message env a msg = Inr (a\<lparr>effects := effects a @ [LogInfo]\<rparr>)
       \<and> (\<forall>b. on_message env a msg = Inr b \<longrightarrow>
              state_current b = state_current a \<and> state_last b = state_last a
            \<and> dimmer b = dimmer a
            \<and> filter visible (effects b) = filter visible (effects a))"
proof -
  from dispatch_new_color[OF assms] have e: "a' = a" .
  have "on_message env a msg = Inr (a\<lparr>effects := effects a @ [LogInfo]\<rparr>)"
    using assms unfolding e by (simp add: on_message_def commit_color_def emit_def)
  then show ?thesis by auto
qed

theorem equal_command_dropped_witness:
  "on_message \<lparr>is_toggle_cmd = (\<lambda>m. m = ''TOGGLE''), within_debounce_time = False,
               set_color_hsv_str = (\<lambda>m c. None), joined = StillAlive\<rparr>
      (init_actuator \<lparr>c_hue = 30, c_sat = 40, c_val = 100, white_channel = False\<rparr> 3) ''ON''
   = Inr ((init_actuator \<lparr>c_hue = 30, c_sat = 40, c_val = 100, white_channel = False\<rparr> 3)
            \<lparr>effects := [LogInfo]\<rparr>)"
proof -
  let ?env = "\<lparr>is_toggle_cmd = (\<lambda>m. m = ''TOGGLE''), within_debounce_time = False,
               set_color_hsv_str = (\<lambda>m c. None), joined = StillAlive\<rparr>"
  let ?c = "\<lparr>c_hue = 30, c_sat = 40, c_val = 100, white_channel = False\<rparr>"
  let ?a = "init_actuator ?c 3"
  have d: "dispatch_msg ?env ?a ''ON'' = Inr (NewColor ?a ?c)"
    by (simp add: dispatch_msg_def Let_def isdigit_def set_hsv_def init_actuator_def)
  have q: "color_eq (state_current ?a) ?c" by (simp add: color_eq_def init_actuator_def)
  from equal_command_dropped[OF d q] show ?thesis by (simp add: init_actuator_def)
qed

end
